theory Spec2Isabelle
  imports Complex_Main "HOL-Library.Monad_Syntax" "HOL-Library.Multiset"
begin

section \<open>The preprocessing diagnostic of \<^verbatim>\<open>debug_model.py\<close>\<close>

text \<open>
  The development embeds the evaluation loop, the ranking and the recommendation of
  \<^verbatim>\<open>main\<close> (lines 250 to 317) together with \<^verbatim>\<open>softmax\<close>.

  Conventions of the embedding:
  \<^item> a NumPy float vector is a \<open>real list\<close>; rounding, infinities and NaN are not
    modelled;
  \<^item> a Python exception that nothing catches ends \<^verbatim>\<open>main\<close>: the functions that
    can raise return an \<open>option\<close>, and \<open>None\<close> is the uncaught exception
    (\<^verbatim>\<open>ValueError\<close> of a reduction over a zero-size array, \<^verbatim>\<open>IndexError\<close> of an
    index out of range);
  \<^item> the exception that \<^verbatim>\<open>run_inference\<close> may raise is caught by the loop: the
    interpreter is a function that returns \<open>Inl message\<close> or \<open>Inr raw\<close>;
  \<^item> what \<^verbatim>\<open>main\<close> prints is returned as a list of output blocks.
\<close>

subsection \<open>NumPy and Python primitives used by the loop\<close>

text \<open>\<^verbatim>\<open>a.max()\<close>: raises on a zero-size array.\<close>

definition np_max :: "real list \<Rightarrow> real option" where
  "np_max xs = (case xs of [] \<Rightarrow> None | y # ys \<Rightarrow> Some (fold max ys y))"

text \<open>\<^verbatim>\<open>a.sum()\<close> and \<^verbatim>\<open>a.mean()\<close>.\<close>

definition np_sum :: "real list \<Rightarrow> real" where
  "np_sum xs = sum_list xs"

definition np_mean :: "real list \<Rightarrow> real" where
  "np_mean xs = sum_list xs / real (length xs)"

text \<open>
  \<^verbatim>\<open>np.argmax(a)\<close>: the index of the first occurrence of the maximum; raises on a
  zero-size array. The scan keeps the running maximum and moves only on a strictly
  greater element.
\<close>

fun argmax_from :: "real list \<Rightarrow> nat \<Rightarrow> nat \<Rightarrow> real \<Rightarrow> nat" where
  "argmax_from [] i best_i best = best_i"
| "argmax_from (x # xs) i best_i best =
     (if x > best then argmax_from xs (Suc i) i x
      else argmax_from xs (Suc i) best_i best)"

definition np_argmax :: "real list \<Rightarrow> nat option" where
  "np_argmax xs = (case xs of [] \<Rightarrow> None | y # ys \<Rightarrow> Some (argmax_from ys 1 0 y))"

text \<open>\<^verbatim>\<open>xs[i]\<close> for a non-negative index: raises \<^verbatim>\<open>IndexError\<close> out of range.\<close>

definition py_getitem :: "'a list \<Rightarrow> nat \<Rightarrow> 'a option" where
  "py_getitem xs i = (if i < length xs then Some (xs ! i) else None)"

text \<open>\<^verbatim>\<open>str(n)\<close> of a non-negative integer: its decimal digits.\<close>

fun str_nat :: "nat \<Rightarrow> string" where
  "str_nat n =
     (if n < 10 then [''0123456789'' ! n]
      else str_nat (n div 10) @ [''0123456789'' ! (n mod 10)])"

declare str_nat.simps [simp del]

text \<open>
  \<^verbatim>\<open>xs.sort(key=key, reverse=True)\<close>: CPython reverses the list, sorts it with its
  stable ascending sort and reverses the result.
\<close>

definition py_sort_reverse :: "('a \<Rightarrow> real) \<Rightarrow> 'a list \<Rightarrow> 'a list" where
  "py_sort_reverse key xs = rev (sort_key key (rev xs))"

subsection \<open>\<^verbatim>\<open>softmax\<close> (lines 73 to 75)\<close>

definition softmax :: "real list \<Rightarrow> real list option" where
  "softmax logits = do {
     m \<leftarrow> np_max logits;
     let e = map (\<lambda>x. exp (x - m)) logits;
     Some (map (\<lambda>x. x / np_sum e) e)
   }"

subsection \<open>The body of the loop after a successful inference (lines 265 to 277)\<close>

text \<open>The tuple appended to \<^verbatim>\<open>results\<close>.\<close>

record result =
  spread :: real
  name :: string
  top_lbl :: string
  top_conf :: real
  raw :: "real list"
  probs :: "real list"
  top3 :: "nat list"

text \<open>\<^verbatim>\<open>labels[idx] if idx < len(labels) else f"idx_{idx}"\<close> (lines 271 and 296).\<close>

definition label_of :: "string list \<Rightarrow> nat \<Rightarrow> string option" where
  "label_of labels idx =
     (if idx < length labels then py_getitem labels idx
      else Some (''idx_'' @ str_nat idx))"

text \<open>
  \<^verbatim>\<open>np.argsort\<close> is a parameter, \<open>argsort\<close>: NumPy's default sort leaves the order of
  equal entries unspecified.
\<close>

definition evaluate ::
  "(real list \<Rightarrow> nat list) \<Rightarrow> string list \<Rightarrow> string \<Rightarrow> real list \<Rightarrow> result option" where
  "evaluate argsort labels nm rw = do {
     let already_prob = \<bar>np_sum rw - 1.0\<bar> < 0.01;
     ps \<leftarrow> (if already_prob then Some rw else softmax rw);
     mx \<leftarrow> np_max rw;
     let sp = mx - np_mean rw;
     top_idx \<leftarrow> np_argmax ps;
     lbl \<leftarrow> label_of labels top_idx;
     p \<leftarrow> py_getitem ps top_idx;
     let conf = p * 100.0;
     let sorted_idx = argsort ps;
     let t3 = rev (drop (length sorted_idx - 3) sorted_idx);
     Some \<lparr>spread = sp, name = nm, top_lbl = lbl, top_conf = conf,
           raw = rw, probs = ps, top3 = t3\<rparr>
   }"

subsection \<open>The evaluation loop (lines 251 to 283)\<close>

record loop_state =
  best_spread :: real
  best_name :: string
  best_label :: string
  best_conf :: real
  results :: "result list"
  errors :: "(string \<times> string) list"

text \<open>
  The field \<open>errors\<close> is the sequence of \<^verbatim>\<open>ERROR\<close> lines printed so far (line 262):
  the candidate's name and the exception's message.
\<close>

definition init_state :: loop_state where
  "init_state = \<lparr>best_spread = - 999.0, best_name = '''', best_label = '''',
                 best_conf = 0.0, results = [], errors = []\<rparr>"

text \<open>
  One iteration. \<open>astype\<close> is the elementwise cast \<^verbatim>\<open>.astype(in_dtype)\<close> of NumPy and
  \<open>interp\<close> the loaded interpreter seen through \<^verbatim>\<open>run_inference\<close>; both are
  parameters. The batch axis of size one is left out.
\<close>

definition main_step ::
  "(real \<Rightarrow> 'e) \<Rightarrow> ('e list \<Rightarrow> string + real list) \<Rightarrow> (real list \<Rightarrow> nat list) \<Rightarrow>
   string list \<Rightarrow> loop_state \<Rightarrow> string \<times> real list \<Rightarrow> loop_state option" where
  "main_step astype interp argsort labels st s =
     (case s of (nm, arr) \<Rightarrow>
        (let batch = map astype arr in
         (case interp batch of
            Inl e \<Rightarrow> Some (st\<lparr>errors := errors st @ [(nm, e)]\<rparr>)
          | Inr rw \<Rightarrow> do {
              r \<leftarrow> evaluate argsort labels nm rw;
              let st1 = st\<lparr>results := results st @ [r]\<rparr>;
              Some (if spread r > best_spread st1
                    then st1\<lparr>best_spread := spread r, best_name := nm,
                             best_label := top_lbl r, best_conf := top_conf r\<rparr>
                    else st1)
            })))"

fun main_loop ::
  "(real \<Rightarrow> 'e) \<Rightarrow> ('e list \<Rightarrow> string + real list) \<Rightarrow> (real list \<Rightarrow> nat list) \<Rightarrow>
   string list \<Rightarrow> loop_state \<Rightarrow> (string \<times> real list) list \<Rightarrow> loop_state option" where
  "main_loop astype interp argsort labels st [] = Some st"
| "main_loop astype interp argsort labels st (s # ss) =
     (case main_step astype interp argsort labels st s of
        None \<Rightarrow> None
      | Some st' \<Rightarrow> main_loop astype interp argsort labels st' ss)"

subsection \<open>Ranking and recommendation (lines 285 to 317)\<close>

datatype verdict = Unreliable | Acceptable | Mediocre

definition main_verdict :: "real \<Rightarrow> verdict" where
  "main_verdict best =
     (if best < 2.0 then Unreliable
      else if best \<ge> 5.0 then Acceptable
      else Mediocre)"

text \<open>The three lines printed under a ranked entry (lines 295 to 297).\<close>

definition top3_lines :: "string list \<Rightarrow> result \<Rightarrow> (string \<times> real) list option" where
  "top3_lines labels r =
     those (map (\<lambda>idx. do {
                   lbl \<leftarrow> label_of labels idx;
                   p \<leftarrow> py_getitem (probs r) idx;
                   Some (lbl, p * 100)
                 }) (top3 r))"

datatype printed =
    ErrorLine string string
  | RankEntry nat result "(string \<times> real) list"
  | Recommendation string string real real
  | Verdict verdict

definition main_ranked :: "loop_state \<Rightarrow> result list" where
  "main_ranked st = py_sort_reverse spread (results st)"

definition print_ranked :: "string list \<Rightarrow> result list \<Rightarrow> printed list option" where
  "print_ranked labels rs =
     those (map (\<lambda>(rank, r). map_option (RankEntry (rank + 1) r) (top3_lines labels r))
                (enumerate 0 rs))"

definition main ::
  "(real \<Rightarrow> 'e) \<Rightarrow> ('e list \<Rightarrow> string + real list) \<Rightarrow> (real list \<Rightarrow> nat list) \<Rightarrow>
   string list \<Rightarrow> (string \<times> real list) list \<Rightarrow> printed list option" where
  "main astype interp argsort labels strategies = do {
     st \<leftarrow> main_loop astype interp argsort labels init_state strategies;
     ranked \<leftarrow> print_ranked labels (main_ranked st);
     Some (map (\<lambda>(nm, e). ErrorLine nm e) (errors st)
           @ ranked
           @ [Recommendation (best_name st) (best_label st) (best_conf st) (best_spread st),
              Verdict (main_verdict (best_spread st))])
   }"

section \<open>Vocabulary of the statements\<close>

text \<open>
  The definitions of this section are not part of the program: the theorems use them to
  say what the program computes.
\<close>

text \<open>
  The softmax in the words of the specification: subtract the maximum, exponentiate,
  divide by the sum of the exponentials.
\<close>

definition spec_softmax :: "real list \<Rightarrow> real list" where
  "spec_softmax xs =
     map (\<lambda>x. exp (x - Max (set xs)) / (\<Sum>y\<leftarrow>xs. exp (y - Max (set xs)))) xs"

text \<open>The probability vector in the words of the specification.\<close>

definition spec_probs :: "real list \<Rightarrow> real list" where
  "spec_probs xs = (if \<bar>sum_list xs - 1.0\<bar> < 0.01 then xs else spec_softmax xs)"

text \<open>
  What one candidate contributes to \<^verbatim>\<open>results\<close>: nothing when its inference call
  raises, its evaluation otherwise.
\<close>

definition candidate_result ::
  "(real \<Rightarrow> 'e) \<Rightarrow> ('e list \<Rightarrow> string + real list) \<Rightarrow> (real list \<Rightarrow> nat list) \<Rightarrow>
   string list \<Rightarrow> string \<times> real list \<Rightarrow> result option" where
  "candidate_result astype interp argsort labels s =
     (case interp (map astype (snd s)) of
        Inl e \<Rightarrow> None
      | Inr rw \<Rightarrow> evaluate argsort labels (fst s) rw)"

text \<open>The \<^verbatim>\<open>ERROR\<close> line of one candidate, when its inference call raises.\<close>

definition candidate_error ::
  "(real \<Rightarrow> 'e) \<Rightarrow> ('e list \<Rightarrow> string + real list) \<Rightarrow>
   string \<times> real list \<Rightarrow> (string \<times> string) option" where
  "candidate_error astype interp s =
     (case interp (map astype (snd s)) of
        Inl e \<Rightarrow> Some (fst s, e)
      | Inr rw \<Rightarrow> None)"

text \<open>The running best of the loop is the first entry of the ranking.\<close>

definition best_is_head :: "loop_state \<Rightarrow> bool" where
  "best_is_head st =
     (let h = hd (main_ranked st) in
      best_spread st = spread h \<and> best_name st = name h \<and>
      best_label st = top_lbl h \<and> best_conf st = top_conf h)"

text \<open>The invariant of the loop.\<close>

definition loop_inv :: "loop_state \<Rightarrow> bool" where
  "loop_inv st =
     ((\<forall>r\<in>set (results st). 0 \<le> spread r) \<and>
      (if results st = [] then best_spread st < 0 else best_is_head st))"

text \<open>
  What NumPy promises of \<^verbatim>\<open>np.argsort\<close>: a permutation of the indices, in ascending
  order of their values.
\<close>

definition argsort_contract :: "(real list \<Rightarrow> nat list) \<Rightarrow> bool" where
  "argsort_contract argsort =
     (\<forall>ps. mset (argsort ps) = mset [0..<length ps] \<and>
           sorted (map ((!) ps) (argsort ps)))"

text \<open>
  The order by probability, then by index: \<open>i\<close> ranks below \<open>j\<close> when its
  probability is smaller, or equal with \<open>i\<close> the smaller index.
\<close>

definition ranks_below :: "real list \<Rightarrow> nat \<Rightarrow> nat \<Rightarrow> bool" where
  "ranks_below ps i j = (ps ! i < ps ! j \<or> (ps ! i = ps ! j \<and> i < j))"

section \<open>Two small runs\<close>

text \<open>
  The argsort of the runs keeps equal entries in index order: it is the stable insertion
  sort of the indices \<open>0, ..., n - 1\<close> (NumPy's \<^verbatim>\<open>kind='stable'\<close>).
\<close>

definition stable_argsort :: "real list \<Rightarrow> nat list" where
  "stable_argsort xs = sort_key (\<lambda>i. xs ! i) [0..<length xs]"

text \<open>
  A model with float32 input (the cast leaves a real unchanged), two labels and four
  candidates: the first returns a uniform distribution over four classes, the second
  raises, the third returns a peaked distribution and the fourth returns two equal
  logits. \<open>broken_interp\<close> raises on every call.
\<close>

definition float32_cast :: "real \<Rightarrow> real" where
  "float32_cast x = x"

definition demo_labels :: "string list" where
  "demo_labels = [''60-65kg'', ''65-70kg'']"

definition demo_strategies :: "(string \<times> real list) list" where
  "demo_strategies =
     [(''stretch | raw'', [1]), (''stretch | unit'', [2]),
      (''center-crop | raw'', [3]), (''letterbox | raw'', [4])]"

definition demo_interp :: "real list \<Rightarrow> string + real list" where
  "demo_interp batch =
     (if batch = [1] then Inr [1/4, 1/4, 1/4, 1/4]
      else if batch = [2] then Inl ''invoke failed''
      else if batch = [3] then Inr [7/10, 1/5, 1/10]
      else Inr [3, 3])"

definition broken_interp :: "real list \<Rightarrow> string + real list" where
  "broken_interp batch = Inl ''invoke failed''"

definition demo_uniform :: result where
  "demo_uniform = \<lparr>spread = 0, name = ''stretch | raw'', top_lbl = ''60-65kg'',
     top_conf = 25, raw = [1/4, 1/4, 1/4, 1/4], probs = [1/4, 1/4, 1/4, 1/4],
     top3 = [3, 2, 1]\<rparr>"

definition demo_peaked :: result where
  "demo_peaked = \<lparr>spread = 11/30, name = ''center-crop | raw'', top_lbl = ''60-65kg'',
     top_conf = 70, raw = [7/10, 1/5, 1/10], probs = [7/10, 1/5, 1/10],
     top3 = [0, 1, 2]\<rparr>"

definition demo_logits :: result where
  "demo_logits = \<lparr>spread = 0, name = ''letterbox | raw'', top_lbl = ''60-65kg'',
     top_conf = 50, raw = [3, 3], probs = [1/2, 1/2], top3 = [1, 0]\<rparr>"

definition demo_final :: loop_state where
  "demo_final = \<lparr>best_spread = 11/30, best_name = ''center-crop | raw'',
     best_label = ''60-65kg'', best_conf = 70,
     results = [demo_uniform, demo_peaked, demo_logits],
     errors = [(''stretch | unit'', ''invoke failed'')]\<rparr>"

text \<open>
  A model with 95 classes whose output is the uniform distribution, with the 95 numeric
  labels that \<^verbatim>\<open>main\<close> synthesises when the label file is missing (line 148).
\<close>

definition labels95 :: "string list" where
  "labels95 = map str_nat [0..<95]"

definition uniform95 :: "real list" where
  "uniform95 = replicate 95 (1/95)"

definition interp95 :: "real list \<Rightarrow> string + real list" where
  "interp95 batch = Inr uniform95"

definition demo95 :: result where
  "demo95 = \<lparr>spread = 0, name = ''stretch | raw'', top_lbl = ''0'',
     top_conf = 100/95, raw = uniform95, probs = uniform95, top3 = [94, 93, 92]\<rparr>"

definition final95 :: loop_state where
  "final95 = \<lparr>best_spread = 0, best_name = ''stretch | raw'', best_label = ''0'',
     best_conf = 100/95, results = [demo95], errors = []\<rparr>"

section \<open>Facts about the primitives\<close>

lemma np_max_eq_Max: "xs \<noteq> [] \<Longrightarrow> np_max xs = Some (Max (set xs))"
  by (cases xs) (simp_all add: np_max_def Max.set_eq_fold [symmetric])

lemma np_max_Nil: "np_max [] = None"
  by (simp add: np_max_def)

lemma np_max_Some_nonempty: "np_max xs = Some m \<Longrightarrow> xs \<noteq> []"
  by (auto simp: np_max_def)

lemma sum_list_le_length_times:
  fixes xs :: "real list"
  shows "\<forall>x\<in>set xs. x \<le> m \<Longrightarrow> sum_list xs \<le> real (length xs) * m"
  by (induction xs) (auto simp: algebra_simps)

lemma np_mean_le_Max:
  assumes "xs \<noteq> []"
  shows "np_mean xs \<le> Max (set xs)"
proof -
  have "sum_list xs \<le> real (length xs) * Max (set xs)"
    by (rule sum_list_le_length_times) simp
  moreover have "0 < real (length xs)" using assms by simp
  ultimately show ?thesis
    by (simp add: np_mean_def pos_divide_le_eq mult.commute)
qed

lemma sum_list_exp_pos:
  fixes f :: "'a \<Rightarrow> real"
  shows "xs \<noteq> [] \<Longrightarrow> 0 < (\<Sum>x\<leftarrow>xs. exp (f x))"
proof (cases xs)
  case Nil
  assume "xs \<noteq> []"
  with Nil show ?thesis by simp
next
  case (Cons a as)
  have "0 \<le> (\<Sum>x\<leftarrow>as. exp (f x))"
    by (induction as) simp_all
  then show ?thesis
    by (simp add: Cons add_pos_nonneg)
qed

lemma softmax_Nil: "softmax [] = None"
  by (simp add: softmax_def np_max_Nil)

lemma softmax_eq:
  "xs \<noteq> [] \<Longrightarrow>
   softmax xs = Some (map (\<lambda>x. exp (x - Max (set xs)) / (\<Sum>y\<leftarrow>xs. exp (y - Max (set xs)))) xs)"
  by (simp add: softmax_def np_max_eq_Max np_sum_def comp_def)

lemma sum_list_divide_const:
  fixes f :: "'a \<Rightarrow> real"
  shows "(\<Sum>x\<leftarrow>xs. f x / c) = (\<Sum>x\<leftarrow>xs. f x) / c"
  by (induction xs) (simp_all add: add_divide_distrib)

lemma softmax_sums_to_one:
  assumes "softmax xs = Some ps"
  shows "sum_list ps = 1"
proof -
  from assms have ne: "xs \<noteq> []" by (auto simp: softmax_Nil)
  let ?S = "\<Sum>y\<leftarrow>xs. exp (y - Max (set xs))"
  have "0 < ?S" using ne by (rule sum_list_exp_pos)
  moreover from assms have "ps = map (\<lambda>x. exp (x - Max (set xs)) / ?S) xs"
    by (simp add: softmax_eq [OF ne])
  ultimately show ?thesis
    by (simp add: sum_list_divide_const comp_def)
qed

lemma argmax_from_bound:
  "best_i < i \<Longrightarrow> argmax_from xs i best_i best < i + length xs"
  by (induction xs i best_i best rule: argmax_from.induct) auto

lemma np_argmax_Some:
  "xs \<noteq> [] \<Longrightarrow> \<exists>i. np_argmax xs = Some i \<and> i < length xs"
  using argmax_from_bound [of 0 1]
  by (cases xs) (auto simp: np_argmax_def)

lemma np_argmax_less: "np_argmax xs = Some i \<Longrightarrow> i < length xs"
  using np_argmax_Some [of xs] by (cases xs) (auto simp: np_argmax_def)

lemma label_of_total:
  "label_of labels idx =
     Some (if idx < length labels then labels ! idx else ''idx_'' @ str_nat idx)"
  by (simp add: label_of_def py_getitem_def)

lemma stable_argsort_contract: "argsort_contract stable_argsort"
  by (simp add: argsort_contract_def stable_argsort_def)

lemma argsort_contractD:
  assumes "argsort_contract argsort"
  shows "set (argsort ps) = {0..<length ps}"
    and "length (argsort ps) = length ps"
    and "distinct (argsort ps)"
    and "sorted (map ((!) ps) (argsort ps))"
proof -
  from assms have m: "mset (argsort ps) = mset [0..<length ps]"
    and s: "sorted (map ((!) ps) (argsort ps))"
    by (simp_all add: argsort_contract_def)
  from m show "set (argsort ps) = {0..<length ps}"
    using mset_eq_setD by fastforce
  from m show "length (argsort ps) = length ps"
    using mset_eq_length by fastforce
  from m show "distinct (argsort ps)"
    using mset_eq_imp_distinct_iff by fastforce
  from s show "sorted (map ((!) ps) (argsort ps))" .
qed

lemma length_spec_probs: "length (spec_probs xs) = length xs"
  by (simp add: spec_probs_def spec_softmax_def)

lemma spec_softmax_sums_to_one: "xs \<noteq> [] \<Longrightarrow> sum_list (spec_softmax xs) = 1"
  using softmax_sums_to_one [of xs "spec_softmax xs"]
  by (simp add: softmax_eq spec_softmax_def)

lemma spec_probs_eq_raw_iff:
  assumes "xs \<noteq> []"
  shows "spec_probs xs = xs \<longleftrightarrow> \<bar>sum_list xs - 1.0\<bar> < 0.01"
proof
  assume eq: "spec_probs xs = xs"
  show "\<bar>sum_list xs - 1.0\<bar> < 0.01"
  proof (rule ccontr)
    assume n: "\<not> \<bar>sum_list xs - 1.0\<bar> < 0.01"
    with eq have "spec_softmax xs = xs" by (simp add: spec_probs_def)
    with spec_softmax_sums_to_one [OF assms] have "sum_list xs = 1" by simp
    with n show False by simp
  qed
next
  assume "\<bar>sum_list xs - 1.0\<bar> < 0.01"
  then show "spec_probs xs = xs" by (simp add: spec_probs_def)
qed

lemma those_map_Some:
  "(\<And>x. x \<in> set xs \<Longrightarrow> f x = Some (g x)) \<Longrightarrow> those (map f xs) = Some (map g xs)"
  by (induction xs) simp_all

lemma map_filter_SomeD:
  "r \<in> set (List.map_filter f xs) \<Longrightarrow> \<exists>x\<in>set xs. f x = Some r"
  by (auto simp: List.map_filter_def)

subsection \<open>The descending stable sort\<close>

lemma mset_py_sort_reverse: "mset (py_sort_reverse key xs) = mset xs"
  by (simp add: py_sort_reverse_def)

lemma sorted_py_sort_reverse:
  "sorted_wrt (\<lambda>a b. key a \<ge> key b) (py_sort_reverse key xs)"
proof -
  have "sorted (map key (sort_key key (rev xs)))" by simp
  then have "sorted_wrt (\<lambda>a b. key a \<le> key b) (sort_key key (rev xs))"
    by (simp add: sorted_wrt_map)
  then show ?thesis
    by (simp add: py_sort_reverse_def sorted_wrt_rev)
qed

lemma stable_py_sort_reverse:
  "filter (\<lambda>x. key x = k) (py_sort_reverse key xs) = filter (\<lambda>x. key x = k) xs"
  by (simp add: py_sort_reverse_def rev_filter [symmetric] sort_key_stable)

lemma last_insort_key:
  "sorted (map f ys) \<Longrightarrow>
   last (insort_key f x ys) = (if ys = [] \<or> f (last ys) < f x then x else last ys)"
proof (induction ys)
  case Nil
  show ?case by simp
next
  case (Cons y ys)
  then have le: "\<forall>z\<in>set ys. f y \<le> f z" and srt: "sorted (map f ys)" by auto
  show ?case
  proof (cases "f x \<le> f y")
    case True
    have "f y \<le> f (last (y # ys))" using le by (cases ys) auto
    with True show ?thesis by auto
  next
    case False
    have ne: "insort_key f x ys \<noteq> []" by (cases ys) auto
    from False Cons.IH [OF srt] show ?thesis
      by (auto simp: ne)
  qed
qed

lemma hd_py_sort_reverse_snoc:
  "hd (py_sort_reverse key (xs @ [r])) =
     (if xs = [] \<or> key (hd (py_sort_reverse key xs)) < key r then r
      else hd (py_sort_reverse key xs))"
proof -
  have ne: "insort_key key r (sort_key key (rev xs)) \<noteq> []"
    by (cases "sort_key key (rev xs)") auto
  have xs: "sort_key key (rev xs) = [] \<longleftrightarrow> xs = []"
    by (metis length_0_conv length_rev length_sort)
  show ?thesis
    using last_insort_key [of key "sort_key key (rev xs)" r]
    by (simp add: py_sort_reverse_def hd_rev ne xs)
qed

subsection \<open>The ascending argsort and its last three entries\<close>

lemma ranks_below_insort:
  fixes x :: nat
  assumes "sorted_wrt (ranks_below ps) ys" and "\<forall>y\<in>set ys. x < y"
  shows "sorted_wrt (ranks_below ps) (insort_key ((!) ps) x ys)"
  using assms
proof (induction ys)
  case Nil
  show ?case by simp
next
  case (Cons y ys)
  show ?case
  proof (cases "ps ! x \<le> ps ! y")
    case True
    have "ranks_below ps x z" if "z \<in> set (y # ys)" for z
    proof -
      have "ps ! y \<le> ps ! z"
        using that Cons.prems(1) by (auto simp: ranks_below_def)
      moreover have "x < z" using that Cons.prems(2) by auto
      ultimately show ?thesis using True by (auto simp: ranks_below_def)
    qed
    with True Cons.prems(1) show ?thesis by simp
  next
    case False
    then have "ranks_below ps y x" by (simp add: ranks_below_def)
    moreover have "sorted_wrt (ranks_below ps) (insort_key ((!) ps) x ys)"
      using Cons by simp
    ultimately show ?thesis
      using False Cons.prems(1) by (auto simp: set_insort_key)
  qed
qed

lemma ranks_below_sort_key:
  fixes xs :: "nat list"
  shows "sorted_wrt (<) xs \<Longrightarrow> sorted_wrt (ranks_below ps) (sort_key ((!) ps) xs)"
proof (induction xs)
  case Nil
  show ?case by simp
next
  case (Cons x xs)
  then have "sorted_wrt (ranks_below ps) (sort_key ((!) ps) xs)"
    and "\<forall>y\<in>set (sort_key ((!) ps) xs). x < y"
    by simp_all
  then show ?case
    by (simp add: ranks_below_insort)
qed

lemma stable_argsort_ranked: "sorted_wrt (ranks_below ps) (stable_argsort ps)"
  by (simp add: stable_argsort_def ranks_below_sort_key)

lemma top3_of_argsort:
  fixes ps :: "real list"
  assumes "argsort_contract argsort"
  defines "t3 \<equiv> rev (drop (length (argsort ps) - 3) (argsort ps))"
  shows "length t3 = min 3 (length ps)"
    and "distinct t3"
    and "set t3 \<subseteq> {0..<length ps}"
    and "sorted_wrt (\<lambda>i j. ps ! j \<le> ps ! i) t3"
    and "\<forall>j<length ps. j \<notin> set t3 \<longrightarrow> (\<forall>i\<in>set t3. ps ! j \<le> ps ! i)"
proof -
  let ?idx = "argsort ps" and ?k = "length (argsort ps) - 3"
  note c = argsort_contractD [OF assms(1), of ps]
  show "length t3 = min 3 (length ps)"
    by (auto simp: t3_def c(2))
  show "distinct t3"
    by (simp add: t3_def c(3))
  show "set t3 \<subseteq> {0..<length ps}"
    using c(1) by (auto simp: t3_def dest: in_set_dropD)
  have "sorted_wrt (\<lambda>i j. ps ! i \<le> ps ! j) ?idx"
    using c(4) by (simp add: sorted_wrt_map)
  then have srt: "sorted_wrt (\<lambda>i j. ps ! i \<le> ps ! j) (take ?k ?idx @ drop ?k ?idx)"
    by simp
  then have "sorted_wrt (\<lambda>i j. ps ! i \<le> ps ! j) (drop ?k ?idx)"
    unfolding sorted_wrt_append by blast
  then show "sorted_wrt (\<lambda>i j. ps ! j \<le> ps ! i) t3"
    by (simp add: t3_def sorted_wrt_rev)
  show "\<forall>j<length ps. j \<notin> set t3 \<longrightarrow> (\<forall>i\<in>set t3. ps ! j \<le> ps ! i)"
  proof (intro allI impI ballI)
    fix j i assume j: "j < length ps" "j \<notin> set t3" and i: "i \<in> set t3"
    from j(1) have "j \<in> set (take ?k ?idx @ drop ?k ?idx)"
      by (simp add: c(1))
    then have "j \<in> set (take ?k ?idx) \<union> set (drop ?k ?idx)"
      by (simp only: set_append)
    with j(2) have "j \<in> set (take ?k ?idx)" by (simp add: t3_def)
    moreover from i have "i \<in> set (drop ?k ?idx)" by (simp add: t3_def)
    ultimately show "ps ! j \<le> ps ! i"
      using srt unfolding sorted_wrt_append by blast
  qed
qed

lemma top3_of_stable_argsort:
  fixes ps :: "real list"
  defines "t3 \<equiv> rev (drop (length (stable_argsort ps) - 3) (stable_argsort ps))"
  shows "sorted_wrt (\<lambda>i j. ranks_below ps j i) t3"
    and "\<forall>j<length ps. j \<notin> set t3 \<longrightarrow> (\<forall>i\<in>set t3. ranks_below ps j i)"
proof -
  let ?idx = "stable_argsort ps" and ?k = "length (stable_argsort ps) - 3"
  note c = argsort_contractD [OF stable_argsort_contract, of ps]
  have srt: "sorted_wrt (ranks_below ps) (take ?k ?idx @ drop ?k ?idx)"
    by (simp add: stable_argsort_ranked)
  then have "sorted_wrt (ranks_below ps) (drop ?k ?idx)"
    unfolding sorted_wrt_append by blast
  then show "sorted_wrt (\<lambda>i j. ranks_below ps j i) t3"
    by (simp add: t3_def sorted_wrt_rev)
  show "\<forall>j<length ps. j \<notin> set t3 \<longrightarrow> (\<forall>i\<in>set t3. ranks_below ps j i)"
  proof (intro allI impI ballI)
    fix j i assume j: "j < length ps" "j \<notin> set t3" and i: "i \<in> set t3"
    from j(1) have "j \<in> set (take ?k ?idx @ drop ?k ?idx)"
      by (simp add: c(1))
    then have "j \<in> set (take ?k ?idx) \<union> set (drop ?k ?idx)"
      by (simp only: set_append)
    with j(2) have "j \<in> set (take ?k ?idx)" by (simp add: t3_def)
    moreover from i have "i \<in> set (drop ?k ?idx)" by (simp add: t3_def)
    ultimately show "ranks_below ps j i"
      using srt unfolding sorted_wrt_append by blast
  qed
qed

section \<open>The evaluation of one raw output\<close>

lemma evaluate_Nil: "evaluate argsort labels nm [] = None"
  by (simp add: evaluate_def softmax_Nil np_sum_def)

lemma evaluate_eq:
  assumes "rw \<noteq> []"
  shows "\<exists>i. np_argmax (spec_probs rw) = Some i \<and> i < length rw \<and>
           evaluate argsort labels nm rw =
             Some \<lparr>spread = Max (set rw) - np_mean rw, name = nm,
                   top_lbl = (if i < length labels then labels ! i else ''idx_'' @ str_nat i),
                   top_conf = spec_probs rw ! i * 100, raw = rw, probs = spec_probs rw,
                   top3 = rev (drop (length (argsort (spec_probs rw)) - 3) (argsort (spec_probs rw)))\<rparr>"
proof -
  have ne: "spec_probs rw \<noteq> []"
    using assms length_spec_probs [of rw] by (metis length_0_conv)
  from np_argmax_Some [OF ne] obtain i where
    i: "np_argmax (spec_probs rw) = Some i" "i < length rw"
    by (auto simp: length_spec_probs)
  have ps: "(if \<bar>np_sum rw - 1.0\<bar> < 0.01 then Some rw else softmax rw) = Some (spec_probs rw)"
    by (simp add: spec_probs_def spec_softmax_def softmax_eq [OF assms] np_sum_def)
  have "evaluate argsort labels nm rw =
             Some \<lparr>spread = Max (set rw) - np_mean rw, name = nm,
                   top_lbl = (if i < length labels then labels ! i else ''idx_'' @ str_nat i),
                   top_conf = spec_probs rw ! i * 100, raw = rw, probs = spec_probs rw,
                   top3 = rev (drop (length (argsort (spec_probs rw)) - 3) (argsort (spec_probs rw)))\<rparr>"
    unfolding evaluate_def Let_def ps
    by (simp add: np_max_eq_Max [OF assms] i label_of_total py_getitem_def
        length_spec_probs)
  with i show ?thesis by blast
qed

lemma evaluate_SomeD:
  assumes "evaluate argsort labels nm rw = Some r"
  shows "rw \<noteq> []" and "raw r = rw" and "name r = nm" and "probs r = spec_probs rw"
    and "spread r = Max (set rw) - np_mean rw"
    and "top3 r = rev (drop (length (argsort (spec_probs rw)) - 3) (argsort (spec_probs rw)))"
    and "\<exists>i. np_argmax (probs r) = Some i \<and> i < length rw \<and>
           top_lbl r = (if i < length labels then labels ! i else ''idx_'' @ str_nat i) \<and>
           top_conf r = probs r ! i * 100"
proof -
  show ne: "rw \<noteq> []" using assms by (auto simp: evaluate_Nil)
  from evaluate_eq [OF ne, of argsort labels nm] assms
  obtain i where i: "np_argmax (spec_probs rw) = Some i" "i < length rw"
    and r: "r = \<lparr>spread = Max (set rw) - np_mean rw, name = nm,
                   top_lbl = (if i < length labels then labels ! i else ''idx_'' @ str_nat i),
                   top_conf = spec_probs rw ! i * 100, raw = rw, probs = spec_probs rw,
                   top3 = rev (drop (length (argsort (spec_probs rw)) - 3) (argsort (spec_probs rw)))\<rparr>"
    by auto
  show "raw r = rw" "name r = nm" "probs r = spec_probs rw"
    "spread r = Max (set rw) - np_mean rw"
    "top3 r = rev (drop (length (argsort (spec_probs rw)) - 3) (argsort (spec_probs rw)))"
    by (simp_all add: r)
  show "\<exists>i. np_argmax (probs r) = Some i \<and> i < length rw \<and>
           top_lbl r = (if i < length labels then labels ! i else ''idx_'' @ str_nat i) \<and>
           top_conf r = probs r ! i * 100"
    using i by (simp add: r)
qed

lemma evaluate_spread_nonneg: "evaluate argsort labels nm rw = Some r \<Longrightarrow> 0 \<le> spread r"
  using evaluate_SomeD(1,5) [of argsort labels nm rw r] np_mean_le_Max [of rw] by simp

lemma top3_in_range:
  assumes "evaluate argsort labels nm rw = Some r" and "argsort_contract argsort"
  shows "\<forall>idx\<in>set (top3 r). idx < length rw"
proof -
  have "set (top3 r) \<subseteq> set (argsort (spec_probs rw))"
    using evaluate_SomeD(6) [OF assms(1)] by (auto dest: in_set_dropD)
  then show ?thesis
    by (auto simp: argsort_contractD(1) [OF assms(2)] length_spec_probs)
qed

lemma top3_lines_eq:
  assumes "evaluate argsort labels nm rw = Some r" and "argsort_contract argsort"
  shows "top3_lines labels r =
           Some (map (\<lambda>idx. (if idx < length labels then labels ! idx else ''idx_'' @ str_nat idx,
                              probs r ! idx * 100)) (top3 r))"
  unfolding top3_lines_def
proof (rule those_map_Some)
  fix idx assume "idx \<in> set (top3 r)"
  with top3_in_range [OF assms] have "idx < length rw" by blast
  then have "idx < length (probs r)"
    using evaluate_SomeD(4) [OF assms(1)] by (simp add: length_spec_probs)
  then show "label_of labels idx \<bind>
          (\<lambda>lbl. py_getitem (probs r) idx \<bind> (\<lambda>p. Some (lbl, p * 100))) =
         Some (if idx < length labels then labels ! idx else ''idx_'' @ str_nat idx,
               probs r ! idx * 100)"
    by (simp add: label_of_total py_getitem_def)
qed

section \<open>The loop and its invariant\<close>

lemma main_step_SomeD:
  assumes "main_step astype interp argsort labels st s = Some st'"
  shows "results st' = results st @ (case candidate_result astype interp argsort labels s of None \<Rightarrow> [] | Some r \<Rightarrow> [r])"
    and "errors st' = errors st @ (case candidate_error astype interp s of None \<Rightarrow> [] | Some e \<Rightarrow> [e])"
    and "\<not> isl (interp (map astype (snd s))) \<Longrightarrow> candidate_result astype interp argsort labels s \<noteq> None"
  using assms
  by (cases s; cases "interp (map astype (snd s))";
      auto simp: main_step_def candidate_result_def candidate_error_def Let_def
           split: bind_splits if_splits)+

lemma main_step_inv:
  assumes "main_step astype interp argsort labels st s = Some st'" and "loop_inv st"
  shows "loop_inv st'"
proof (cases s)
  case (Pair nm arr)
  show ?thesis
  proof (cases "interp (map astype arr)")
    case (Inl e)
    with assms Pair show ?thesis
      by (auto simp: main_step_def loop_inv_def best_is_head_def main_ranked_def)
  next
    case (Inr rw)
    with assms Pair obtain r where r: "evaluate argsort labels nm rw = Some r"
      and st': "st' = (if spread r > best_spread st
                  then st\<lparr>results := results st @ [r], best_spread := spread r, best_name := nm,
                           best_label := top_lbl r, best_conf := top_conf r\<rparr>
                  else st\<lparr>results := results st @ [r]\<rparr>)"
      by (auto simp: main_step_def Let_def split: bind_splits if_splits)
    have nn: "0 \<le> spread r" and nm: "name r = nm"
      using r evaluate_spread_nonneg evaluate_SomeD(3) by blast+
    show ?thesis
    proof (cases "results st = []")
      case True
      with assms(2) have "best_spread st < 0" by (simp add: loop_inv_def)
      with nn have "spread r > best_spread st" by simp
      with True nn nm show ?thesis
        by (simp add: st' loop_inv_def best_is_head_def main_ranked_def py_sort_reverse_def)
    next
      case False
      with assms(2) have h: "best_is_head st" and all: "\<forall>r\<in>set (results st). 0 \<le> spread r"
        by (simp_all add: loop_inv_def)
      from h have bs: "best_spread st = spread (hd (py_sort_reverse spread (results st)))"
        by (simp add: best_is_head_def main_ranked_def Let_def)
      show ?thesis
        using False h all nn nm bs
        by (simp add: st' loop_inv_def best_is_head_def main_ranked_def Let_def
            hd_py_sort_reverse_snoc)
    qed
  qed
qed

lemma main_loop_SomeD:
  assumes "main_loop astype interp argsort labels st ss = Some st'"
  shows "results st' = results st @ List.map_filter (candidate_result astype interp argsort labels) ss"
    and "errors st' = errors st @ List.map_filter (candidate_error astype interp) ss"
    and "loop_inv st \<Longrightarrow> loop_inv st'"
  using assms
proof (induction ss arbitrary: st)
  case Nil
  { case 1 then show ?case by simp }
  { case 2 then show ?case by simp }
  { case 3 then show ?case by simp }
next
  case (Cons s ss)
  { case 1
    then obtain st1 where s1: "main_step astype interp argsort labels st s = Some st1"
      and l: "main_loop astype interp argsort labels st1 ss = Some st'"
      by (auto split: option.splits)
    from Cons.IH(1) [OF l] main_step_SomeD(1) [OF s1] show ?case
      by (simp split: option.splits) }
  { case 2
    then obtain st1 where s1: "main_step astype interp argsort labels st s = Some st1"
      and l: "main_loop astype interp argsort labels st1 ss = Some st'"
      by (auto split: option.splits)
    from Cons.IH(2) [OF l] main_step_SomeD(2) [OF s1] show ?case
      by (simp split: option.splits) }
  { case 3
    then obtain st1 where s1: "main_step astype interp argsort labels st s = Some st1"
      and l: "main_loop astype interp argsort labels st1 ss = Some st'"
      by (auto split: option.splits)
    from Cons.IH(3) [OF _ l] main_step_inv [OF s1] 3 show ?case by simp }
qed

lemma loop_inv_init: "loop_inv init_state"
  by (simp add: loop_inv_def init_state_def)

lemma main_loop_total:
  assumes "\<forall>s\<in>set ss. \<forall>rw. interp (map astype (snd s)) = Inr rw \<longrightarrow> rw \<noteq> []"
  shows "\<exists>st'. main_loop astype interp argsort labels st ss = Some st'"
  using assms
proof (induction ss arbitrary: st)
  case Nil
  show ?case by simp
next
  case (Cons s ss)
  obtain nm arr where s: "s = (nm, arr)" by (cases s)
  have "\<exists>st1. main_step astype interp argsort labels st (nm, arr) = Some st1"
  proof (cases "interp (map astype arr)")
    case (Inl e)
    then show ?thesis by (simp add: main_step_def)
  next
    case (Inr rw)
    with Cons.prems have "rw \<noteq> []" by (simp add: s)
    from evaluate_eq [OF this, of argsort labels nm] obtain r where "evaluate argsort labels nm rw = Some r"
      by blast
    with Inr show ?thesis by (simp add: main_step_def Let_def)
  qed
  then obtain st1 where st1: "main_step astype interp argsort labels st (nm, arr) = Some st1" ..
  from Cons.prems have "\<forall>s\<in>set ss. \<forall>rw. interp (map astype (snd s)) = Inr rw \<longrightarrow> rw \<noteq> []"
    by simp
  from Cons.IH [OF this, of st1] show ?case
    by (simp add: s st1)
qed

lemma candidate_result_None_iff:
  assumes "\<forall>rw. interp (map astype (snd s)) = Inr rw \<longrightarrow> rw \<noteq> []"
  shows "candidate_result astype interp argsort labels s = None \<longleftrightarrow> isl (interp (map astype (snd s)))"
proof (cases "interp (map astype (snd s))")
  case (Inl e)
  then show ?thesis by (simp add: candidate_result_def)
next
  case (Inr rw)
  with assms have "rw \<noteq> []" by simp
  from evaluate_eq [OF this, of argsort labels "fst s"] Inr show ?thesis
    by (auto simp: candidate_result_def)
qed

lemma ranked_evaluated:
  assumes "main_loop astype interp argsort labels init_state strategies = Some st"
    and "r \<in> set (main_ranked st)"
  shows "\<exists>nm rw. evaluate argsort labels nm rw = Some r"
proof -
  have "set (main_ranked st) = set (results st)"
    by (metis main_ranked_def mset_py_sort_reverse set_mset_mset)
  with assms(2) main_loop_SomeD(1) [OF assms(1)]
  have "r \<in> set (List.map_filter (candidate_result astype interp argsort labels) strategies)"
    by (simp add: init_state_def)
  then obtain s where "candidate_result astype interp argsort labels s = Some r"
    by (blast dest: map_filter_SomeD)
  then show ?thesis
    by (auto simp: candidate_result_def split: sum.splits)
qed

lemma print_ranked_Some:
  assumes "\<forall>r\<in>set rs. \<exists>nm rw. evaluate argsort labels nm rw = Some r"
    and "argsort_contract argsort"
  shows "\<exists>out. print_ranked labels rs = Some out \<and> length out = length rs"
proof -
  have "those (map (\<lambda>(rank, r). map_option (RankEntry (rank + 1) r) (top3_lines labels r))
                (enumerate 0 rs)) =
        Some (map (\<lambda>(rank, r). RankEntry (rank + 1) r (the (top3_lines labels r)))
                (enumerate 0 rs))"
  proof (rule those_map_Some)
    fix x assume x: "x \<in> set (enumerate 0 rs)"
    obtain rank r where xr: "x = (rank, r)" by (cases x)
    with x have "r \<in> set rs" by (auto simp: in_set_enumerate_eq)
    with assms(1) obtain nm rw where "evaluate argsort labels nm rw = Some r" by blast
    from top3_lines_eq [OF this assms(2)] show
      "(case x of (rank, r) \<Rightarrow> map_option (RankEntry (rank + 1) r) (top3_lines labels r)) =
       Some (case x of (rank, r) \<Rightarrow> RankEntry (rank + 1) r (the (top3_lines labels r)))"
      by (simp add: xr)
  qed
  then show ?thesis by (simp add: print_ranked_def)
qed

lemma main_eq:
  assumes "\<forall>s\<in>set strategies. \<forall>rw. interp (map astype (snd s)) = Inr rw \<longrightarrow> rw \<noteq> []"
    and "argsort_contract argsort"
  shows "\<exists>st lines.
           main_loop astype interp argsort labels init_state strategies = Some st \<and>
           print_ranked labels (main_ranked st) = Some lines \<and>
           length lines = length (results st) \<and>
           main astype interp argsort labels strategies =
             Some (map (\<lambda>(nm, e). ErrorLine nm e) (errors st) @ lines @
                   [Recommendation (best_name st) (best_label st) (best_conf st)
                      (best_spread st),
                    Verdict (main_verdict (best_spread st))])"
proof -
  from main_loop_total [OF assms(1)] obtain st
    where st: "main_loop astype interp argsort labels init_state strategies = Some st" by blast
  have "\<forall>r\<in>set (main_ranked st). \<exists>nm rw. evaluate argsort labels nm rw = Some r"
    using ranked_evaluated [OF st] by blast
  from print_ranked_Some [OF this assms(2)] obtain lines
    where l: "print_ranked labels (main_ranked st) = Some lines"
      and n: "length lines = length (main_ranked st)" by blast
  have "length (main_ranked st) = length (results st)"
    by (metis main_ranked_def mset_py_sort_reverse size_mset)
  with st l n show ?thesis by (simp add: main_def)
qed

section \<open>The small runs, evaluated\<close>

lemmas eval_simps = evaluate_def softmax_def np_sum_def np_max_def np_mean_def np_argmax_def
  label_of_def py_getitem_def stable_argsort_def str_nat.simps

lemma demo_evaluate:
  "evaluate stable_argsort demo_labels ''stretch | raw'' [1/4, 1/4, 1/4, 1/4] = Some demo_uniform"
  "evaluate stable_argsort demo_labels ''center-crop | raw'' [7/10, 1/5, 1/10] = Some demo_peaked"
  "evaluate stable_argsort demo_labels ''letterbox | raw'' [3, 3] = Some demo_logits"
  by (simp_all add: eval_simps demo_labels_def demo_uniform_def demo_peaked_def demo_logits_def)

lemma demo_loop:
  "main_loop float32_cast demo_interp stable_argsort demo_labels init_state demo_strategies = Some demo_final"
  by (simp add: demo_strategies_def main_step_def demo_interp_def float32_cast_def
      demo_evaluate init_state_def demo_final_def demo_uniform_def demo_peaked_def demo_logits_def)

lemma demo_ranked: "main_ranked demo_final = [demo_peaked, demo_uniform, demo_logits]"
  by (simp add: main_ranked_def py_sort_reverse_def demo_final_def demo_uniform_def
      demo_peaked_def demo_logits_def)

lemma demo_candidates:
  "List.map_filter (candidate_result float32_cast demo_interp stable_argsort demo_labels) demo_strategies =
     [demo_uniform, demo_peaked, demo_logits]"
  "List.map_filter (candidate_error float32_cast demo_interp) demo_strategies =
     [(''stretch | unit'', ''invoke failed'')]"
  by (simp_all add: demo_strategies_def candidate_result_def
      candidate_error_def demo_interp_def float32_cast_def demo_evaluate)

lemma demo_in_ranked:
  "demo_peaked \<in> set (main_ranked demo_final)"
  "demo_logits \<in> set (main_ranked demo_final)"
  "demo_uniform \<in> set (main_ranked demo_final)"
  by (simp_all add: demo_ranked)

lemma demo_top3_lines:
  "top3_lines demo_labels demo_uniform =
     Some [(''idx_3'', 25), (''idx_2'', 25), (''65-70kg'', 25)]"
  by (simp add: top3_lines_def demo_uniform_def demo_labels_def label_of_def py_getitem_def
      str_nat.simps)

lemma demo_print_ranked:
  "print_ranked demo_labels [demo_peaked, demo_uniform, demo_logits] =
     Some [RankEntry 1 demo_peaked [(''60-65kg'', 70), (''65-70kg'', 20), (''idx_2'', 10)],
           RankEntry 2 demo_uniform [(''idx_3'', 25), (''idx_2'', 25), (''65-70kg'', 25)],
           RankEntry 3 demo_logits [(''65-70kg'', 50), (''60-65kg'', 50)]]"
proof -
  have "top3_lines demo_labels demo_peaked =
          Some [(''60-65kg'', 70), (''65-70kg'', 20), (''idx_2'', 10)]"
    and "top3_lines demo_labels demo_uniform =
          Some [(''idx_3'', 25), (''idx_2'', 25), (''65-70kg'', 25)]"
    and "top3_lines demo_labels demo_logits = Some [(''65-70kg'', 50), (''60-65kg'', 50)]"
    by (simp_all add: top3_lines_def label_of_def py_getitem_def str_nat.simps demo_labels_def
        demo_peaked_def demo_uniform_def demo_logits_def)
  then show ?thesis
    by (simp add: print_ranked_def enumerate_eq_zip upt_rec)
qed

lemma demo_final_fields:
  "errors demo_final = [(''stretch | unit'', ''invoke failed'')]"
  "best_name demo_final = ''center-crop | raw''"
  "best_label demo_final = ''60-65kg''"
  "best_conf demo_final = 70"
  "best_spread demo_final = 11/30"
  by (simp_all add: demo_final_def)

lemma demo_main:
  "main float32_cast demo_interp stable_argsort demo_labels demo_strategies =
     Some [ErrorLine ''stretch | unit'' ''invoke failed'',
           RankEntry 1 demo_peaked [(''60-65kg'', 70), (''65-70kg'', 20), (''idx_2'', 10)],
           RankEntry 2 demo_uniform [(''idx_3'', 25), (''idx_2'', 25), (''65-70kg'', 25)],
           RankEntry 3 demo_logits [(''65-70kg'', 50), (''60-65kg'', 50)],
           Recommendation ''center-crop | raw'' ''60-65kg'' 70 (11/30),
           Verdict Unreliable]"
  by (simp add: main_def demo_loop demo_ranked demo_print_ranked demo_final_fields
      main_verdict_def)

lemma stable_argsort_replicate: "stable_argsort (replicate n c) = [0..<n]"
proof -
  have "map ((!) (replicate n c)) [0..<n] = replicate n c"
    using map_nth [of "replicate n c"] by simp
  then have "sorted (map ((!) (replicate n c)) [0..<n])" by simp
  then show ?thesis
    by (simp add: stable_argsort_def sort_key_id_if_sorted)
qed

lemma np_max_replicate: "0 < n \<Longrightarrow> np_max (replicate n c) = Some c"
  by (subst np_max_eq_Max) auto

lemma argmax_from_replicate: "argmax_from (replicate n c) i b c = b"
  by (induction n arbitrary: i) simp_all

lemma np_argmax_replicate: "0 < n \<Longrightarrow> np_argmax (replicate n c) = Some 0"
  by (cases n) (simp_all add: np_argmax_def argmax_from_replicate)

lemma evaluate95: "evaluate stable_argsort labels95 ''stretch | raw'' uniform95 = Some demo95"
  by (simp add: evaluate_def np_sum_def sum_list_replicate np_max_replicate np_mean_def
      np_argmax_replicate label_of_def py_getitem_def stable_argsort_replicate labels95_def
      demo95_def uniform95_def str_nat.simps)

lemma loop95:
  "main_loop float32_cast interp95 stable_argsort labels95 init_state [(''stretch | raw'', [1])] = Some final95"
  by (simp add: main_step_def interp95_def evaluate95 init_state_def final95_def demo95_def)

lemma ranked95: "main_ranked final95 = [demo95]"
  by (simp add: main_ranked_def py_sort_reverse_def final95_def)

lemma top3_lines95:
  "top3_lines labels95 demo95 = Some [(''94'', 100/95), (''93'', 100/95), (''92'', 100/95)]"
  by (simp add: top3_lines_def demo95_def labels95_def label_of_def py_getitem_def
      uniform95_def str_nat.simps)

section \<open>Every candidate fails\<close>

lemma main_loop_all_fail:
  "\<forall>s\<in>set strategies. isl (interp (map astype (snd s))) \<Longrightarrow>
   main_loop astype interp argsort labels st strategies =
     Some (st\<lparr>errors := errors st
        @ map (\<lambda>s. (fst s, projl (interp (map astype (snd s))))) strategies\<rparr>)"
proof (induction strategies arbitrary: st)
  case Nil
  show ?case by simp
next
  case (Cons s ss)
  obtain nm arr where s: "s = (nm, arr)" by (cases s)
  from Cons.prems obtain e where e: "interp (map astype arr) = Inl e"
    by (auto simp: s isl_def)
  have step: "main_step astype interp argsort labels st (nm, arr) = Some (st\<lparr>errors := errors st @ [(nm, e)]\<rparr>)"
    by (simp add: main_step_def e)
  from Cons.prems have "\<forall>s\<in>set ss. isl (interp (map astype (snd s)))" by simp
  from Cons.IH [OF this] show ?case
    by (simp add: step s e)
qed

text \<open>
  C1, as the code has it. When the inference call of every candidate raises, the run does
  not crash: it prints one \<^verbatim>\<open>ERROR\<close> line per candidate, ranks nothing, and then
  prints the recommendation section all the same, with the initial values of the running
  best (empty variant name, empty label, confidence 0.0, spread -999.0) and the verdict
  of a score below 2.0.
\<close>

theorem main_all_fail:
  assumes "\<forall>s\<in>set strategies. isl (interp (map astype (snd s)))"
  shows "main astype interp argsort labels strategies =
           Some (map (\<lambda>s. ErrorLine (fst s) (projl (interp (map astype (snd s))))) strategies
                 @ [Recommendation '''' '''' 0 (- 999), Verdict Unreliable])"
  by (simp add: main_def main_loop_all_fail [OF assms] init_state_def print_ranked_def
      main_ranked_def py_sort_reverse_def main_verdict_def case_prod_beta)

theorem main_all_fail_witness:
  "list_all (\<lambda>s. isl (broken_interp (map float32_cast (snd s)))) demo_strategies \<and>
   main float32_cast broken_interp stable_argsort demo_labels demo_strategies =
     Some [ErrorLine ''stretch | raw'' ''invoke failed'',
           ErrorLine ''stretch | unit'' ''invoke failed'',
           ErrorLine ''center-crop | raw'' ''invoke failed'',
           ErrorLine ''letterbox | raw'' ''invoke failed'',
           Recommendation '''' '''' 0 (- 999), Verdict Unreliable]"
proof -
  have h: "\<forall>s\<in>set demo_strategies. isl (broken_interp (map float32_cast (snd s)))"
    by (simp add: broken_interp_def)
  have p: "projl (broken_interp b) = ''invoke failed''" for b
    by (simp add: broken_interp_def)
  have "main float32_cast broken_interp stable_argsort demo_labels demo_strategies =
     Some [ErrorLine ''stretch | raw'' ''invoke failed'',
           ErrorLine ''stretch | unit'' ''invoke failed'',
           ErrorLine ''center-crop | raw'' ''invoke failed'',
           ErrorLine ''letterbox | raw'' ''invoke failed'',
           Recommendation '''' '''' 0 (- 999), Verdict Unreliable]"
    using main_all_fail [where labels = demo_labels and argsort = stable_argsort, OF h]
    by (simp add: demo_strategies_def p)
  with h show ?thesis by (simp add: list_all_iff)
qed

text \<open>
  The claim as the specification states it (no recommendation is emitted when every
  candidate fails) does not hold: with an interpreter that raises on every call, the
  printed blocks end with a recommendation for the variant with the empty name and with
  the verdict of a score below 2.0.
\<close>

theorem all_fail_still_recommends:
  "main float32_cast broken_interp stable_argsort demo_labels demo_strategies =
     Some [ErrorLine ''stretch | raw'' ''invoke failed'',
           ErrorLine ''stretch | unit'' ''invoke failed'',
           ErrorLine ''center-crop | raw'' ''invoke failed'',
           ErrorLine ''letterbox | raw'' ''invoke failed'',
           Recommendation '''' '''' 0 (- 999), Verdict Unreliable]"
  by (simp add: main_def init_state_def main_step_def print_ranked_def main_ranked_def
      py_sort_reverse_def main_verdict_def demo_strategies_def broken_interp_def)

section \<open>The top three\<close>

text \<open>
  C2, as the code has it. For every ranked candidate, the reported top-3
  (\<^verbatim>\<open>np.argsort(probs)[-3:][::-1]\<close>) holds three distinct indices of the probability
  vector (all of them when the vector has fewer than three entries), ordered descending
  by probability, and every index left out has a probability no greater than that of each
  index reported. Equal probabilities are not ordered by lower index: they come in the
  reverse of the order in which the argsort leaves them. With an argsort that keeps equal
  entries in index order, the higher index comes first and a tie at the cut-off keeps the
  higher indices: the list is then strictly descending in the order by probability, then
  by index.
\<close>

theorem top3_descending_ties_reversed:
  assumes "argsort_contract argsort"
    and "main_loop astype interp argsort labels init_state strategies = Some st"
    and "r \<in> set (main_ranked st)"
  shows "length (top3 r) = min 3 (length (probs r)) \<and>
         distinct (top3 r) \<and>
         set (top3 r) \<subseteq> {0..<length (probs r)} \<and>
         sorted_wrt (\<lambda>i j. probs r ! j \<le> probs r ! i) (top3 r) \<and>
         (\<forall>j. j < length (probs r) \<and> j \<notin> set (top3 r) \<longrightarrow>
            (\<forall>i\<in>set (top3 r). probs r ! j \<le> probs r ! i)) \<and>
         (argsort = stable_argsort \<longrightarrow>
            sorted_wrt (\<lambda>i j. ranks_below (probs r) j i) (top3 r) \<and>
            (\<forall>j. j < length (probs r) \<and> j \<notin> set (top3 r) \<longrightarrow>
               (\<forall>i\<in>set (top3 r). ranks_below (probs r) j i)))"
proof -
  from ranked_evaluated [OF assms(2,3)] obtain nm rw
    where e: "evaluate argsort labels nm rw = Some r"
    by blast
  have t: "top3 r = rev (drop (length (argsort (probs r)) - 3) (argsort (probs r)))"
    using evaluate_SomeD(4,6) [OF e] by simp
  have general: "length (top3 r) = min 3 (length (probs r)) \<and>
         distinct (top3 r) \<and>
         set (top3 r) \<subseteq> {0..<length (probs r)} \<and>
         sorted_wrt (\<lambda>i j. probs r ! j \<le> probs r ! i) (top3 r) \<and>
         (\<forall>j. j < length (probs r) \<and> j \<notin> set (top3 r) \<longrightarrow>
            (\<forall>i\<in>set (top3 r). probs r ! j \<le> probs r ! i))"
    using top3_of_argsort [OF assms(1), of "probs r"]
    unfolding t [symmetric]
    by simp
  have stable: "sorted_wrt (\<lambda>i j. ranks_below (probs r) j i) (top3 r) \<and>
            (\<forall>j. j < length (probs r) \<and> j \<notin> set (top3 r) \<longrightarrow>
               (\<forall>i\<in>set (top3 r). ranks_below (probs r) j i))"
    if "argsort = stable_argsort"
    using top3_of_stable_argsort [of "probs r"] t
    unfolding that
    by simp
  from general stable show ?thesis by blast
qed

theorem top3_descending_ties_reversed_witness:
  "main_loop float32_cast demo_interp stable_argsort demo_labels init_state demo_strategies =
     Some demo_final \<and>
   demo_uniform \<in> set (main_ranked demo_final) \<and>
   probs demo_uniform = [1/4, 1/4, 1/4, 1/4] \<and>
   top3 demo_uniform = [3, 2, 1] \<and>
   length (top3 demo_uniform) = min 3 (length (probs demo_uniform)) \<and>
   sorted_wrt (\<lambda>i j. probs demo_uniform ! j \<le> probs demo_uniform ! i) (top3 demo_uniform) \<and>
   sorted_wrt (\<lambda>i j. ranks_below (probs demo_uniform) j i) (top3 demo_uniform) \<and>
   0 \<notin> set (top3 demo_uniform) \<and>
   list_all (ranks_below (probs demo_uniform) 0) (top3 demo_uniform)"
proof -
  note t = top3_descending_ties_reversed [OF stable_argsort_contract demo_loop demo_in_ranked(3)]
  have a: "probs demo_uniform = [1/4, 1/4, 1/4, 1/4]" "top3 demo_uniform = [3, 2, 1]"
    by (simp_all add: demo_uniform_def)
  have b: "0 < length (probs demo_uniform) \<and> 0 \<notin> set (top3 demo_uniform)"
    by (simp add: a)
  from t b have "\<forall>i\<in>set (top3 demo_uniform). ranks_below (probs demo_uniform) 0 i"
    by blast
  then have "list_all (ranks_below (probs demo_uniform) 0) (top3 demo_uniform)"
    by (simp add: list_all_iff)
  with t b demo_loop demo_in_ranked(3) a show ?thesis
    by blast
qed

text \<open>
  The claim as the specification states it (among equal probabilities the lower index is
  placed first) does not hold: for the uniform distribution over four classes and an
  argsort that keeps equal entries in index order, the reported top-3 is 3, 2, 1, and
  index 0 is left out.
\<close>

theorem top3_tie_puts_higher_index_first:
  "map_option probs (evaluate stable_argsort demo_labels ''stretch | raw'' [1/4, 1/4, 1/4, 1/4]) =
     Some [1/4, 1/4, 1/4, 1/4] \<and>
   map_option top3 (evaluate stable_argsort demo_labels ''stretch | raw'' [1/4, 1/4, 1/4, 1/4]) =
     Some [3, 2, 1]"
  by (simp add: eval_simps demo_labels_def)

section \<open>The decisiveness score\<close>

text \<open>
  C3. For every ranked candidate, the decisiveness score is the maximum of the raw output
  minus its mean. The right-hand side mentions the raw output only: whether the output was
  taken for a probability distribution decides \<open>probs\<close> and has no part in the score.
\<close>

theorem spread_is_max_minus_mean:
  assumes "main_loop astype interp argsort labels init_state strategies = Some st"
    and "r \<in> set (main_ranked st)"
  shows "raw r \<noteq> [] \<and>
         spread r = Max (set (raw r)) - sum_list (raw r) / real (length (raw r))"
proof -
  from ranked_evaluated [OF assms] obtain nm rw where "evaluate argsort labels nm rw = Some r"
    by blast
  from evaluate_SomeD(1,2,5) [OF this] show ?thesis
    by (simp add: np_mean_def)
qed

theorem spread_is_max_minus_mean_witness:
  "main_loop float32_cast demo_interp stable_argsort demo_labels init_state demo_strategies = Some demo_final \<and>
   demo_peaked \<in> set (main_ranked demo_final) \<and>
   raw demo_peaked = [7/10, 1/5, 1/10] \<and>
   spread demo_peaked = 11/30 \<and>
   Max (set (raw demo_peaked)) - sum_list (raw demo_peaked) / real (length (raw demo_peaked))
     = 11/30"
  using spread_is_max_minus_mean [OF demo_loop demo_in_ranked(1)] demo_loop demo_in_ranked(1)
  by (simp add: demo_peaked_def)

section \<open>The probability vector\<close>

text \<open>
  C4. For every ranked candidate, \<^verbatim>\<open>softmax\<close> of the raw output is the softmax in the
  words of the specification (subtract the maximum, exponentiate, divide by the sum of
  the exponentials); the probability vector is the raw output when
  \<open>\<bar>sum raw - 1.0\<bar> < 0.01\<close> and that softmax otherwise; and it equals the raw output
  exactly when \<open>\<bar>sum raw - 1.0\<bar> < 0.01\<close>, since a softmax sums to 1.
\<close>

theorem probs_is_raw_or_softmax:
  assumes "main_loop astype interp argsort labels init_state strategies = Some st"
    and "r \<in> set (main_ranked st)"
  shows "softmax (raw r) = Some (spec_softmax (raw r)) \<and>
         probs r = (if \<bar>sum_list (raw r) - 1.0\<bar> < 0.01 then raw r else spec_softmax (raw r)) \<and>
         (probs r = raw r \<longleftrightarrow> \<bar>sum_list (raw r) - 1.0\<bar> < 0.01)"
proof -
  from ranked_evaluated [OF assms] obtain nm rw where "evaluate argsort labels nm rw = Some r"
    by blast
  from evaluate_SomeD(1,2,4) [OF this]
  have ne: "raw r \<noteq> []" and ps: "probs r = spec_probs (raw r)" by simp_all
  show ?thesis
    using spec_probs_eq_raw_iff [OF ne]
    by (simp add: ps softmax_eq [OF ne] spec_softmax_def spec_probs_def)
qed

theorem probs_is_raw_or_softmax_witness:
  "main_loop float32_cast demo_interp stable_argsort demo_labels init_state demo_strategies = Some demo_final \<and>
   demo_logits \<in> set (main_ranked demo_final) \<and>
   demo_peaked \<in> set (main_ranked demo_final) \<and>
   \<not> \<bar>sum_list (raw demo_logits) - 1.0\<bar> < 0.01 \<and>
   probs demo_logits = spec_softmax (raw demo_logits) \<and>
   softmax [3, 3] = Some [1/2, 1/2] \<and>
   probs demo_logits \<noteq> raw demo_logits \<and>
   \<bar>sum_list (raw demo_peaked) - 1.0\<bar> < 0.01 \<and>
   probs demo_peaked = raw demo_peaked"
proof -
  have sm: "spec_softmax [3, 3] = [1/2, 1/2]"
    by (simp add: spec_softmax_def)
  have a: "\<not> \<bar>sum_list (raw demo_logits) - 1.0\<bar> < 0.01"
    and b: "\<bar>sum_list (raw demo_peaked) - 1.0\<bar> < 0.01"
    by (simp_all add: demo_logits_def demo_peaked_def)
  from probs_is_raw_or_softmax [OF demo_loop demo_in_ranked(2)] a
  have "probs demo_logits = spec_softmax (raw demo_logits)"
    and "softmax (raw demo_logits) = Some (spec_softmax (raw demo_logits))"
    and "probs demo_logits \<noteq> raw demo_logits"
    by auto
  moreover have "raw demo_logits = [3, 3]" by (simp add: demo_logits_def)
  moreover from probs_is_raw_or_softmax [OF demo_loop demo_in_ranked(1)] b
  have "probs demo_peaked = raw demo_peaked" by simp
  ultimately show ?thesis
    using demo_loop demo_in_ranked a b by (simp add: sm)
qed

section \<open>The ranking\<close>

text \<open>
  C5. When the loop ends, the ranked list holds exactly the evaluations of the candidates
  whose inference call succeeded (as a multiset), it is sorted by decisiveness score in
  descending order, and the entries of equal score keep the order in which the candidates
  were generated (for every score \<open>k\<close>, the entries of score \<open>k\<close> are the same list
  before and after the sort). The ranked list is a function of the inputs, so two runs on
  the same inputs give the same list.
\<close>

theorem ranking_sorted_stable:
  assumes "main_loop astype interp argsort labels init_state strategies = Some st"
  shows "mset (main_ranked st) =
           mset (List.map_filter (candidate_result astype interp argsort labels) strategies) \<and>
         sorted_wrt (\<lambda>a b. spread a \<ge> spread b) (main_ranked st) \<and>
         (\<forall>k. filter (\<lambda>r. spread r = k) (main_ranked st) =
              filter (\<lambda>r. spread r = k)
                (List.map_filter (candidate_result astype interp argsort labels) strategies))"
proof -
  have "results st = List.map_filter (candidate_result astype interp argsort labels) strategies"
    using main_loop_SomeD(1) [OF assms] by (simp add: init_state_def)
  then show ?thesis
    by (simp add: main_ranked_def mset_py_sort_reverse sorted_py_sort_reverse
        stable_py_sort_reverse)
qed

theorem ranking_sorted_stable_witness:
  "main_loop float32_cast demo_interp stable_argsort demo_labels init_state demo_strategies = Some demo_final \<and>
   main_ranked demo_final = [demo_peaked, demo_uniform, demo_logits] \<and>
   mset [demo_peaked, demo_uniform, demo_logits] = mset [demo_uniform, demo_peaked, demo_logits] \<and>
   sorted_wrt (\<lambda>a b. spread a \<ge> spread b) [demo_peaked, demo_uniform, demo_logits] \<and>
   (\<forall>k. filter (\<lambda>r. spread r = k) [demo_peaked, demo_uniform, demo_logits] =
        filter (\<lambda>r. spread r = k) [demo_uniform, demo_peaked, demo_logits])"
  using ranking_sorted_stable [OF demo_loop] demo_loop
  by (simp only: demo_ranked demo_candidates simp_thms)

text \<open>
  C6. When at least one candidate was evaluated, the running best kept by the loop (updated
  only on a strictly greater score) is the first entry of the ranked list: same score,
  same name, same label and same confidence.
\<close>

theorem best_is_head_of_ranking:
  assumes "main_loop astype interp argsort labels init_state strategies = Some st"
    and "results st \<noteq> []"
  shows "best_spread st = spread (hd (main_ranked st)) \<and>
         best_name st = name (hd (main_ranked st)) \<and>
         best_label st = top_lbl (hd (main_ranked st)) \<and>
         best_conf st = top_conf (hd (main_ranked st))"
  using main_loop_SomeD(3) [OF assms(1) loop_inv_init] assms(2)
  by (simp add: loop_inv_def best_is_head_def Let_def)

theorem best_is_head_of_ranking_witness:
  "main_loop float32_cast demo_interp stable_argsort demo_labels init_state demo_strategies = Some demo_final \<and>
   results demo_final \<noteq> [] \<and>
   hd (main_ranked demo_final) = demo_peaked \<and>
   best_spread demo_final = spread demo_peaked \<and>
   best_name demo_final = name demo_peaked \<and>
   best_label demo_final = top_lbl demo_peaked \<and>
   best_conf demo_final = top_conf demo_peaked"
proof -
  have ne: "results demo_final \<noteq> []" by (simp add: demo_final_def)
  have hd: "hd (main_ranked demo_final) = demo_peaked" by (simp add: demo_ranked)
  show ?thesis
    using best_is_head_of_ranking [OF demo_loop ne] demo_loop ne hd by simp
qed

section \<open>The recommendation thresholds\<close>

text \<open>
  C7. The classification of the best decisiveness score (lines 306 to 317) is a total
  three-way partition of the scores: the branch with the root-cause hints
  (\<open>Unreliable\<close>) is taken exactly for a score strictly below 2.0, the branch that
  suggests another resize or crop strategy (\<open>Mediocre\<close>) exactly for a score in
  [2.0, 5.0), and the branch that recommends the winning variant (\<open>Acceptable\<close>)
  exactly for a score of 5.0 or above. The source tests \<open>< 2.0\<close>, then
  \<open>\<ge> 5.0\<close>, and leaves the middle interval to the final \<^verbatim>\<open>else\<close>.
\<close>

theorem main_verdict_partition:
  "(main_verdict s = Unreliable \<longleftrightarrow> s < 2.0) \<and>
   (main_verdict s = Mediocre \<longleftrightarrow> 2.0 \<le> s \<and> s < 5.0) \<and>
   (main_verdict s = Acceptable \<longleftrightarrow> 5.0 \<le> s)"
  by (simp add: main_verdict_def)

section \<open>Label resolution\<close>

text \<open>
  C8. For every ranked candidate (the argsort returning a permutation of the indices), the
  top-1 index and every top-3 index is below the length of the output vector, so for an output vector of length 95 they lie in [0, 95). Label
  resolution never indexes outside the label list (it never raises): an index below
  the number of labels gives that label and any other index gives the synthetic string
  \<^verbatim>\<open>idx_<i>\<close>, for the top-1 label and for each of the printed top-3 lines.
\<close>

theorem label_resolution_in_range:
  assumes "argsort_contract argsort"
    and "main_loop astype interp argsort labels init_state strategies = Some st"
    and "r \<in> set (main_ranked st)"
  shows "(\<exists>i. np_argmax (probs r) = Some i \<and> i < length (raw r) \<and>
              label_of labels i = Some (top_lbl r)) \<and>
         (\<forall>idx\<in>set (top3 r). idx < length (raw r)) \<and>
         top3_lines labels r =
           Some (map (\<lambda>idx. (if idx < length labels then labels ! idx
                               else ''idx_'' @ str_nat idx, probs r ! idx * 100)) (top3 r)) \<and>
         (\<forall>idx. label_of labels idx =
            Some (if idx < length labels then labels ! idx else ''idx_'' @ str_nat idx))"
proof -
  from ranked_evaluated [OF assms(2,3)] obtain nm rw
    where e: "evaluate argsort labels nm rw = Some r"
    by blast
  have rw: "raw r = rw" by (rule evaluate_SomeD(2) [OF e])
  from evaluate_SomeD(7) [OF e] obtain i where
    "np_argmax (probs r) = Some i" "i < length rw"
    "top_lbl r = (if i < length labels then labels ! i else ''idx_'' @ str_nat i)"
    by blast
  then have "\<exists>i. np_argmax (probs r) = Some i \<and> i < length (raw r) \<and>
              label_of labels i = Some (top_lbl r)"
    by (auto simp: rw label_of_total)
  with top3_in_range [OF e assms(1)] top3_lines_eq [OF e assms(1)] show ?thesis
    by (simp add: rw label_of_total)
qed

theorem label_resolution_in_range_witness_95:
  "main_loop float32_cast interp95 stable_argsort labels95 init_state [(''stretch | raw'', [1])] = Some final95 \<and>
   demo95 \<in> set (main_ranked final95) \<and>
   length (raw demo95) = 95 \<and> length labels95 = 95 \<and>
   np_argmax (probs demo95) = Some 0 \<and> label_of labels95 0 = Some (top_lbl demo95) \<and>
   top3 demo95 = [94, 93, 92] \<and>
   top3_lines labels95 demo95 = Some [(''94'', 100/95), (''93'', 100/95), (''92'', 100/95)] \<and>
   label_of labels95 95 = Some ''idx_95'' \<and>
   demo_uniform \<in> set (main_ranked demo_final) \<and>
   length (raw demo_uniform) = 4 \<and> length demo_labels = 2 \<and>
   top3 demo_uniform = [3, 2, 1] \<and>
   top3_lines demo_labels demo_uniform =
     Some [(''idx_3'', 25), (''idx_2'', 25), (''65-70kg'', 25)]"
proof -
  have m: "demo95 \<in> set (main_ranked final95)" by (simp add: ranked95)
  note t = label_resolution_in_range [OF stable_argsort_contract loop95 m]
  note u = label_resolution_in_range [OF stable_argsort_contract demo_loop demo_in_ranked(3)]
  from t have "label_of labels95 95 =
      Some (if 95 < length labels95 then labels95 ! 95 else ''idx_'' @ str_nat 95)"
    by blast
  then have l: "label_of labels95 95 = Some ''idx_95''"
    by (simp add: labels95_def str_nat.simps)
  have am: "np_argmax (probs demo95) = Some 0"
    by (simp add: demo95_def uniform95_def np_argmax_replicate)
  from t am have l0: "label_of labels95 0 = Some (top_lbl demo95)"
    by auto
  have len: "length (raw demo95) = 95" "length labels95 = 95" "top3 demo95 = [94, 93, 92]"
    "length (raw demo_uniform) = 4" "length demo_labels = 2" "top3 demo_uniform = [3, 2, 1]"
    by (simp_all add: demo95_def uniform95_def labels95_def demo_uniform_def demo_labels_def)
  from u have "top3_lines demo_labels demo_uniform =
           Some (map (\<lambda>idx. (if idx < length demo_labels then demo_labels ! idx
                               else ''idx_'' @ str_nat idx, probs demo_uniform ! idx * 100))
                   (top3 demo_uniform))"
    by blast
  then have tl: "top3_lines demo_labels demo_uniform =
     Some [(''idx_3'', 25), (''idx_2'', 25), (''65-70kg'', 25)]"
    by (simp add: demo_uniform_def demo_labels_def str_nat.simps)
  from loop95 m len am l0 l top3_lines95 demo_in_ranked(3) tl show ?thesis
    by simp
qed

section \<open>Failures of single candidates\<close>

text \<open>
  C9. When every raw output that the interpreter returns is non-empty (and the argsort
  returns a permutation of the indices), the run reaches its end whichever inference calls
  raise. Each candidate whose call raises leaves one \<^verbatim>\<open>ERROR\<close> line and no entry in
  \<^verbatim>\<open>results\<close>; each candidate whose call returns leaves its complete evaluation, and
  nothing else is in \<^verbatim>\<open>results\<close>; the ranked list is a permutation of
  \<^verbatim>\<open>results\<close>; and the run prints the \<^verbatim>\<open>ERROR\<close> lines, one entry per ranked
  result, the recommendation and the verdict.
\<close>

theorem failure_isolated:
  assumes "\<forall>s\<in>set strategies. \<forall>rw. interp (map astype (snd s)) = Inr rw \<longrightarrow> rw \<noteq> []"
    and "argsort_contract argsort"
  shows "\<exists>st lines.
           main_loop astype interp argsort labels init_state strategies = Some st \<and>
           errors st = List.map_filter (candidate_error astype interp) strategies \<and>
           results st =
             List.map_filter (candidate_result astype interp argsort labels) strategies \<and>
           (\<forall>s\<in>set strategies.
              candidate_result astype interp argsort labels s = None \<longleftrightarrow>
              isl (interp (map astype (snd s)))) \<and>
           mset (main_ranked st) = mset (results st) \<and>
           print_ranked labels (main_ranked st) = Some lines \<and>
           length lines = length (results st) \<and>
           main astype interp argsort labels strategies =
             Some (map (\<lambda>(nm, e). ErrorLine nm e) (errors st) @ lines @
                   [Recommendation (best_name st) (best_label st) (best_conf st)
                      (best_spread st),
                    Verdict (main_verdict (best_spread st))])"
proof -
  from main_eq [OF assms, of labels] obtain st lines
    where st: "main_loop astype interp argsort labels init_state strategies = Some st"
      and l: "print_ranked labels (main_ranked st) = Some lines"
        "length lines = length (results st)"
        "main astype interp argsort labels strategies =
             Some (map (\<lambda>(nm, e). ErrorLine nm e) (errors st) @ lines @
                   [Recommendation (best_name st) (best_label st) (best_conf st)
                      (best_spread st),
                    Verdict (main_verdict (best_spread st))])"
    by blast
  have "errors st = List.map_filter (candidate_error astype interp) strategies"
    and "results st = List.map_filter (candidate_result astype interp argsort labels) strategies"
    using main_loop_SomeD(1,2) [OF st] by (simp_all add: init_state_def)
  moreover have "\<forall>s\<in>set strategies.
              candidate_result astype interp argsort labels s = None \<longleftrightarrow>
              isl (interp (map astype (snd s)))"
    using assms(1) candidate_result_None_iff by blast
  moreover have "mset (main_ranked st) = mset (results st)"
    by (simp add: main_ranked_def mset_py_sort_reverse)
  ultimately show ?thesis using st l by blast
qed

theorem failure_isolated_witness:
  "main_loop float32_cast demo_interp stable_argsort demo_labels init_state demo_strategies = Some demo_final \<and>
   errors demo_final = [(''stretch | unit'', ''invoke failed'')] \<and>
   results demo_final = [demo_uniform, demo_peaked, demo_logits] \<and>
   main_ranked demo_final = [demo_peaked, demo_uniform, demo_logits] \<and>
   main float32_cast demo_interp stable_argsort demo_labels demo_strategies =
     Some [ErrorLine ''stretch | unit'' ''invoke failed'',
           RankEntry 1 demo_peaked [(''60-65kg'', 70), (''65-70kg'', 20), (''idx_2'', 10)],
           RankEntry 2 demo_uniform [(''idx_3'', 25), (''idx_2'', 25), (''65-70kg'', 25)],
           RankEntry 3 demo_logits [(''65-70kg'', 50), (''60-65kg'', 50)],
           Recommendation ''center-crop | raw'' ''60-65kg'' 70 (11/30),
           Verdict Unreliable]"
proof -
  have h: "\<forall>s\<in>set demo_strategies.
             \<forall>rw. demo_interp (map float32_cast (snd s)) = Inr rw \<longrightarrow> rw \<noteq> []"
    by (auto simp: demo_strategies_def demo_interp_def float32_cast_def)
  from failure_isolated [where labels = demo_labels, OF h stable_argsort_contract] obtain st where
    "main_loop float32_cast demo_interp stable_argsort demo_labels init_state demo_strategies = Some st"
    "errors st = List.map_filter (candidate_error float32_cast demo_interp) demo_strategies"
    "results st =
       List.map_filter (candidate_result float32_cast demo_interp stable_argsort demo_labels) demo_strategies"
    by blast
  then show ?thesis
    by (simp add: demo_loop demo_candidates demo_ranked demo_main)
qed

end
